theory Spec2Isabelle
  imports Main
begin

section \<open>The bounded buffer of the producer-consumer demos\<close>

text \<open>
  The repository holds two demos, each with its own class \<open>Buffer\<close>:
  \<^item> the single-signal variant (one \<open>condition_\<close>), with \<open>push\<close>, \<open>pop\<close>, \<open>try_pop\<close>,
    \<open>size\<close> and \<open>empty\<close>;
  \<^item> the dual-signal variant of \<open>multi_producer_consumer.cpp\<close> (\<open>not_empty_\<close>,
    \<open>not_full_\<close> and the flag \<open>shutdown_\<close>), with \<open>push\<close>, \<open>pop\<close>, \<open>shutdown\<close>, \<open>size\<close>
    and \<open>empty\<close>.

  Every member function takes \<open>mutex_\<close> before it reads or writes a data member, and
  \<open>shutdown_\<close> is stored under the same mutex, so the body of a member function is one
  atomic action on the data members. The embedding is sequential: a member function is
  a function from the state of the object at the moment the body runs to its result,
  the state it leaves and the text it writes to \<open>std::cout\<close>. The mutex and the
  condition variables carry no data and are not fields of the state. The member
  functions come first, one call at a time; the threads of the dual-signal demo, whose
  steps interleave such calls, follow.

  The functions of the single-signal variant are prefixed \<open>single_\<close>, those of the
  dual-signal variant \<open>multi_\<close>. Data members lose the trailing underscore of the source
  (\<open>data_\<close> is \<open>data\<close>, \<open>shutdown_\<close> is \<open>shutdown_flag\<close>).
\<close>

subsection \<open>State\<close>

text \<open>\<open>static const size_t MAX_SIZE = 10\<close>, in both classes.\<close>

definition MAX_SIZE :: nat where
  "MAX_SIZE = 10"

text \<open>
  \<open>std::queue<std::string> data_\<close> is the list of its elements, front first:
  \<open>push\<close> appends at the end, \<open>front\<close> is the head, \<open>pop\<close> drops the head.
  The single-signal class has this one data member.
\<close>

record buffer =
  data :: "string list"

text \<open>
  The dual-signal class has the same queue and \<open>std::atomic<bool> shutdown_{false}\<close>.
\<close>

record shutdown_buffer = buffer +
  shutdown_flag :: bool

text \<open>The state of a freshly constructed object.\<close>

definition single_init :: buffer where
  "single_init = \<lparr>data = []\<rparr>"

definition multi_init :: shutdown_buffer where
  "multi_init = \<lparr>data = [], shutdown_flag = False\<rparr>"

subsection \<open>Waiting and output\<close>

text \<open>
  \<open>cv.wait(lock, pred)\<close> is \<open>while (!pred()) cv.wait(lock);\<close>: the predicate is
  evaluated with the mutex held, and while it is false the caller is suspended and
  only other threads change the state. So the code after the wait runs in a state
  where the predicate holds, with the mutex held since the predicate was evaluated.
  In a state where the predicate is false the call has not returned: that is \<open>Waits\<close>.
\<close>

datatype 'a outcome = Waits | Returns 'a

definition cv_wait :: "('s \<Rightarrow> bool) \<Rightarrow> 's \<Rightarrow> 's outcome" where
  "cv_wait pred s = (if pred s then Returns s else Waits)"

text \<open>\<open>operator<<\<close> on a \<open>size_t\<close>: the decimal digits.\<close>

fun digits :: "nat \<Rightarrow> string" where
  "digits n =
     (if n < 10 then [char_of (48 + n)]
      else digits (n div 10) @ [char_of (48 + n mod 10)])"

declare digits.simps [simp del]

text \<open>
  The line the buffer writes when it adds or removes an item:
  \<^verbatim>\<open>"[BUFFER] Added: '" << item << "' (Buffer size: " << data_.size() << ")\n"\<close>,
  and the same with \<open>Removed\<close> or \<open>Removed (try)\<close>.
\<close>

definition buffer_line :: "string \<Rightarrow> string \<Rightarrow> nat \<Rightarrow> string" where
  "buffer_line verb item n =
     ''[BUFFER] '' @ verb @ '': '' @ [CHR 0x27] @ item @ [CHR 0x27]
       @ '' (Buffer size: '' @ digits n @ '')'' @ [CHR 0x0A]"

subsection \<open>The single-signal variant\<close>

text \<open>
  A member function returns its result, the state it leaves and the text it wrote.
  \<open>bool pop(std::string& item)\<close> returns the flag together with the content of
  \<open>item\<close> after the call; the content of \<open>item\<close> before the call is an argument.
\<close>

definition single_push :: "string \<Rightarrow> buffer \<Rightarrow> (unit \<times> buffer \<times> string) outcome" where
  "single_push item b =
     (case cv_wait (\<lambda>s. length (data s) < MAX_SIZE) b of
        Waits \<Rightarrow> Waits
      | Returns s \<Rightarrow>
          (let s' = s\<lparr>data := data s @ [item]\<rparr>
           in Returns ((), s', buffer_line ''Added'' item (length (data s')))))"

definition single_pop ::
  "string \<Rightarrow> buffer \<Rightarrow> ((bool \<times> string) \<times> buffer \<times> string) outcome" where
  "single_pop item b =
     (case cv_wait (\<lambda>s. data s \<noteq> []) b of
        Waits \<Rightarrow> Waits
      | Returns s \<Rightarrow>
          (case data s of
             x # xs \<Rightarrow>
               Returns ((True, x), s\<lparr>data := xs\<rparr>, buffer_line ''Removed'' x (length xs))
           | [] \<Rightarrow> Returns ((False, item), s, [])))"

definition single_try_pop ::
  "string \<Rightarrow> buffer \<Rightarrow> (bool \<times> string) \<times> buffer \<times> string" where
  "single_try_pop item b =
     (case data b of
        x # xs \<Rightarrow>
          ((True, x), b\<lparr>data := xs\<rparr>, buffer_line ''Removed (try)'' x (length xs))
      | [] \<Rightarrow> ((False, item), b, []))"

definition single_size :: "buffer \<Rightarrow> nat" where
  "single_size b = length (data b)"

definition single_empty :: "buffer \<Rightarrow> bool" where
  "single_empty b = (data b = [])"

subsection \<open>The dual-signal variant\<close>

definition multi_push ::
  "string \<Rightarrow> shutdown_buffer \<Rightarrow> (unit \<times> shutdown_buffer \<times> string) outcome" where
  "multi_push item b =
     (case cv_wait (\<lambda>s. length (data s) < MAX_SIZE \<or> shutdown_flag s) b of
        Waits \<Rightarrow> Waits
      | Returns s \<Rightarrow>
          if shutdown_flag s then Returns ((), s, [])
          else
            (let s' = s\<lparr>data := data s @ [item]\<rparr>
             in Returns ((), s', buffer_line ''Added'' item (length (data s')))))"

definition multi_pop ::
  "string \<Rightarrow> shutdown_buffer \<Rightarrow> ((bool \<times> string) \<times> shutdown_buffer \<times> string) outcome" where
  "multi_pop item b =
     (case cv_wait (\<lambda>s. data s \<noteq> [] \<or> shutdown_flag s) b of
        Waits \<Rightarrow> Waits
      | Returns s \<Rightarrow>
          if data s = [] \<and> shutdown_flag s then Returns ((False, item), s, [])
          else
            (case data s of
               x # xs \<Rightarrow>
                 Returns ((True, x), s\<lparr>data := xs\<rparr>, buffer_line ''Removed'' x (length xs))
             | [] \<Rightarrow> Returns ((False, item), s, [])))"

text \<open>
  \<open>shutdown\<close> stores \<open>true\<close> under the mutex and then notifies both condition
  variables; it writes nothing and waits for nothing.
\<close>

definition multi_shutdown :: "shutdown_buffer \<Rightarrow> shutdown_buffer" where
  "multi_shutdown b = b\<lparr>shutdown_flag := True\<rparr>"

definition multi_size :: "shutdown_buffer \<Rightarrow> nat" where
  "multi_size b = length (data b)"

definition multi_empty :: "shutdown_buffer \<Rightarrow> bool" where
  "multi_empty b = (data b = [])"

subsection \<open>Sequences of calls\<close>

text \<open>
  Since the bodies are atomic, what any number of threads do to one buffer is a
  sequence of calls in the order in which their bodies ran. A call and what it
  returned:
\<close>

datatype single_call = SPush string | SPop string | STryPop string | SSize | SEmpty

datatype multi_call = MPush string | MPop string | MShutdown | MSize | MEmpty

datatype ret = Void | Got bool string | Count nat | Flag bool

fun single_step :: "single_call \<Rightarrow> buffer \<Rightarrow> (ret \<times> buffer \<times> string) outcome" where
  "single_step (SPush item) b =
     (case single_push item b of
        Waits \<Rightarrow> Waits
      | Returns (u, b', out) \<Rightarrow> Returns (Void, b', out))"
| "single_step (SPop item) b =
     (case single_pop item b of
        Waits \<Rightarrow> Waits
      | Returns ((ok, item'), b', out) \<Rightarrow> Returns (Got ok item', b', out))"
| "single_step (STryPop item) b =
     (case single_try_pop item b of
        ((ok, item'), b', out) \<Rightarrow> Returns (Got ok item', b', out))"
| "single_step SSize b = Returns (Count (single_size b), b, [])"
| "single_step SEmpty b = Returns (Flag (single_empty b), b, [])"

fun multi_step ::
  "multi_call \<Rightarrow> shutdown_buffer \<Rightarrow> (ret \<times> shutdown_buffer \<times> string) outcome" where
  "multi_step (MPush item) b =
     (case multi_push item b of
        Waits \<Rightarrow> Waits
      | Returns (u, b', out) \<Rightarrow> Returns (Void, b', out))"
| "multi_step (MPop item) b =
     (case multi_pop item b of
        Waits \<Rightarrow> Waits
      | Returns ((ok, item'), b', out) \<Rightarrow> Returns (Got ok item', b', out))"
| "multi_step MShutdown b = Returns (Void, multi_shutdown b, [])"
| "multi_step MSize b = Returns (Count (multi_size b), b, [])"
| "multi_step MEmpty b = Returns (Flag (multi_empty b), b, [])"

text \<open>
  Running a sequence of calls from a state gives the results in order and the final
  state (the text written is that of the single calls, and is not collected). A call
  whose wait predicate is false when its turn comes does not return there, so the
  sequence is not one the program can produce: \<open>Waits\<close>.
\<close>

fun single_exec ::
  "single_call list \<Rightarrow> buffer \<Rightarrow> (ret list \<times> buffer) outcome" where
  "single_exec [] b = Returns ([], b)"
| "single_exec (c # cs) b =
     (case single_step c b of
        Waits \<Rightarrow> Waits
      | Returns (r, b', out) \<Rightarrow>
          (case single_exec cs b' of
             Waits \<Rightarrow> Waits
           | Returns (rs, b'') \<Rightarrow> Returns (r # rs, b'')))"

fun multi_exec ::
  "multi_call list \<Rightarrow> shutdown_buffer \<Rightarrow> (ret list \<times> shutdown_buffer) outcome" where
  "multi_exec [] b = Returns ([], b)"
| "multi_exec (c # cs) b =
     (case multi_step c b of
        Waits \<Rightarrow> Waits
      | Returns (r, b', out) \<Rightarrow>
          (case multi_exec cs b' of
             Waits \<Rightarrow> Waits
           | Returns (rs, b'') \<Rightarrow> Returns (r # rs, b'')))"

text \<open>The items passed to \<open>push\<close>, and the items that successful pops returned.\<close>

fun single_pushed :: "single_call list \<Rightarrow> string list" where
  "single_pushed [] = []"
| "single_pushed (SPush item # cs) = item # single_pushed cs"
| "single_pushed (c # cs) = single_pushed cs"

fun multi_pushed :: "multi_call list \<Rightarrow> string list" where
  "multi_pushed [] = []"
| "multi_pushed (MPush item # cs) = item # multi_pushed cs"
| "multi_pushed (c # cs) = multi_pushed cs"

fun popped :: "ret list \<Rightarrow> string list" where
  "popped [] = []"
| "popped (Got True item # rs) = item # popped rs"
| "popped (r # rs) = popped rs"

text \<open>The number of calls of \<open>pop\<close> in a sequence.\<close>

fun single_pops :: "single_call list \<Rightarrow> nat" where
  "single_pops [] = 0"
| "single_pops (SPop item # cs) = Suc (single_pops cs)"
| "single_pops (c # cs) = single_pops cs"

fun multi_pops :: "multi_call list \<Rightarrow> nat" where
  "multi_pops [] = 0"
| "multi_pops (MPop item # cs) = Suc (multi_pops cs)"
| "multi_pops (c # cs) = multi_pops cs"

section \<open>The threads of the dual-signal demo\<close>

text \<open>
  \<open>main\<close> of \<open>multi_producer_consumer.cpp\<close> starts three threads running
  \<open>Producer::produce\<close> and two running \<open>Consumer::consume\<close> on one \<open>shared_buffer\<close> and
  one \<open>std::atomic<bool> running\<close>, sleeps, stores \<open>false\<close> in \<open>running\<close>, calls
  \<open>shutdown\<close> and joins the five threads.

  Each thread is a small machine: its state is its local variables and the place in its
  function where it stands, and a step is one access to shared state (a load of
  \<open>running\<close>, a call of \<open>push\<close> or \<open>pop\<close>, a join) or one stretch of local work between
  two such accesses (a sleep, the processing of an item). A thread that stands at a call
  of \<open>push\<close> or \<open>pop\<close> whose wait predicate is false has no step: it is parked in the
  wait. It has a step as soon as the predicate holds. While the program runs this allows
  every run of the program, and perhaps more (a \<open>notify_one\<close> wakes one waiter only).
  Once \<open>shutdown\<close> has run it is exact: the flag is stored under the mutex, so no
  waiter misses it, \<open>notify_all\<close> on both condition variables wakes every parked
  thread, and with the flag true no wait predicate is false again. The lines the threads
  write to \<open>std::cout\<close> and the length of their sleeps touch no shared state and are
  left out.
\<close>

subsection \<open>Producer\<close>





subsection \<open>Consumer\<close>




subsection \<open>Main and the whole program\<close>
















section \<open>Properties\<close>

subsection \<open>The shutdown flag\<close>

lemma multi_step_keeps_flag:
  "shutdown_flag b \<Longrightarrow> multi_step c b = Returns (r, b', out) \<Longrightarrow> shutdown_flag b'"
  by (cases c)
     (auto simp: multi_push_def multi_pop_def multi_shutdown_def cv_wait_def
           split: if_splits list.splits)

lemma multi_exec_keeps_flag:
  "shutdown_flag b \<Longrightarrow> multi_exec cs b = Returns (rs, b') \<Longrightarrow> shutdown_flag b'"
proof (induction cs arbitrary: b rs)
  case Nil
  then show ?case by simp
next
  case (Cons c cs)
  from Cons.prems(2) obtain r b1 o1 rs1 where
    s: "multi_step c b = Returns (r, b1, o1)" and
    e: "multi_exec cs b1 = Returns (rs1, b')"
    by (auto split: outcome.splits)
  from Cons.prems(1) s have "shutdown_flag b1" by (rule multi_step_keeps_flag)
  then show ?case using e by (rule Cons.IH)
qed

text \<open>
  Claim C7. In the dual-signal variant the shutdown flag is monotonic: it is false in a
  freshly constructed buffer, \<open>shutdown\<close> leaves it true, and when it is true before a
  call of \<open>push\<close>, \<open>pop\<close>, \<open>shutdown\<close>, \<open>size\<close> or \<open>empty\<close> it is true after the call; so
  it is true after any sequence of calls that starts with the flag true.
\<close>

theorem shutdown_flag_monotonic:
  "\<not> shutdown_flag multi_init
   \<and> shutdown_flag (multi_shutdown b0)
   \<and> (shutdown_flag b \<and> multi_step c b = Returns (r, b1, out) \<longrightarrow> shutdown_flag b1)
   \<and> (shutdown_flag b \<and> multi_exec cs b = Returns (rs, b2) \<longrightarrow> shutdown_flag b2)"
  using multi_step_keeps_flag [of b c r b1 out] multi_exec_keeps_flag [of b cs rs b2]
  by (auto simp: multi_init_def multi_shutdown_def)

theorem shutdown_flag_monotonic_witness:
  "shutdown_flag \<lparr>data = [''a''], shutdown_flag = True\<rparr>
   \<and> multi_step (MPop []) \<lparr>data = [''a''], shutdown_flag = True\<rparr>
       = Returns (Got True ''a'', \<lparr>data = [], shutdown_flag = True\<rparr>,
                  buffer_line ''Removed'' ''a'' 0)
   \<and> multi_exec [MPush ''b'', MPop [], MPop [], MShutdown, MSize, MEmpty]
         \<lparr>data = [''a''], shutdown_flag = True\<rparr>
       = Returns ([Void, Got True ''a'', Got False [], Void, Count 0, Flag True],
                  \<lparr>data = [], shutdown_flag = True\<rparr>)
   \<and> shutdown_flag \<lparr>data = [], shutdown_flag = True\<rparr>"
  using shutdown_flag_monotonic
          [of "\<lparr>data = [''a''], shutdown_flag = False\<rparr>"
              "\<lparr>data = [''a''], shutdown_flag = True\<rparr>"
              "MPop []" "Got True ''a''" "\<lparr>data = [], shutdown_flag = True\<rparr>"
              "buffer_line ''Removed'' ''a'' 0"
              "[MPush ''b'', MPop [], MPop [], MShutdown, MSize, MEmpty]"
              "[Void, Got True ''a'', Got False [], Void, Count 0, Flag True]"
              "\<lparr>data = [], shutdown_flag = True\<rparr>"]
  by (simp add: multi_pop_def multi_push_def multi_shutdown_def multi_size_def multi_empty_def
        cv_wait_def)

text \<open>
  Claim C10. In the dual-signal variant \<open>shutdown\<close> changes the shutdown flag and nothing
  else: the queue holds the same items in the same order, so \<open>size\<close> and \<open>empty\<close> answer
  as before, and the state after the call is the state before it with the flag true.
\<close>

theorem multi_shutdown_frame:
  "data (multi_shutdown b) = data b
   \<and> multi_size (multi_shutdown b) = multi_size b
   \<and> multi_empty (multi_shutdown b) = multi_empty b
   \<and> multi_shutdown b = b\<lparr>shutdown_flag := True\<rparr>"
  by (simp add: multi_shutdown_def multi_size_def multi_empty_def)

subsection \<open>Push and pop of the dual-signal variant\<close>

lemma multi_push_flag_set:
  "shutdown_flag b \<Longrightarrow> multi_push item b = Returns ((), b, [])"
  by (simp add: multi_push_def cv_wait_def)

text \<open>
  Claim C1. In the dual-signal variant a \<open>push\<close> that runs with the shutdown flag true
  returns (its wait predicate holds), leaves the buffer as it was, so the item is not
  enqueued and the size is the same, and writes nothing. This is so for every push
  after a \<open>shutdown\<close>, whatever calls came between the two.
\<close>

theorem multi_push_after_shutdown:
  "(shutdown_flag b \<longrightarrow> multi_push item b = Returns ((), b, []))
   \<and> (multi_exec cs (multi_shutdown b0) = Returns (rs, b')
        \<longrightarrow> multi_push item b' = Returns ((), b', [])
            \<and> multi_step (MPush item) b' = Returns (Void, b', []))"
proof (intro conjI impI)
  assume "shutdown_flag b"
  then show "multi_push item b = Returns ((), b, [])" by (rule multi_push_flag_set)
next
  assume e: "multi_exec cs (multi_shutdown b0) = Returns (rs, b')"
  have "shutdown_flag (multi_shutdown b0)" by (simp add: multi_shutdown_def)
  then have f: "shutdown_flag b'" using e by (rule multi_exec_keeps_flag)
  then show "multi_push item b' = Returns ((), b', [])" by (rule multi_push_flag_set)
  then show "multi_step (MPush item) b' = Returns (Void, b', [])" by simp
qed

theorem multi_push_after_shutdown_witness:
  "shutdown_flag \<lparr>data = [''a'', ''b''], shutdown_flag = True\<rparr>
   \<and> multi_push ''c'' \<lparr>data = [''a'', ''b''], shutdown_flag = True\<rparr>
       = Returns ((), \<lparr>data = [''a'', ''b''], shutdown_flag = True\<rparr>, [])
   \<and> multi_exec [MPop [], MSize]
         (multi_shutdown \<lparr>data = [''a'', ''b''], shutdown_flag = False\<rparr>)
       = Returns ([Got True ''a'', Count 1], \<lparr>data = [''b''], shutdown_flag = True\<rparr>)
   \<and> multi_push ''c'' \<lparr>data = [''b''], shutdown_flag = True\<rparr>
       = Returns ((), \<lparr>data = [''b''], shutdown_flag = True\<rparr>, [])"
  using multi_push_after_shutdown
          [of "\<lparr>data = [''a'', ''b''], shutdown_flag = True\<rparr>" "''c''"
              "[MPop [], MSize]" "\<lparr>data = [''a'', ''b''], shutdown_flag = False\<rparr>"
              "[Got True ''a'', Count 1]" "\<lparr>data = [''b''], shutdown_flag = True\<rparr>"]
  by (simp add: multi_pop_def multi_shutdown_def multi_size_def cv_wait_def)

lemma multi_pop_waits:
  "(multi_pop item b = Waits) = (data b = [] \<and> \<not> shutdown_flag b)"
  by (simp add: multi_pop_def cv_wait_def split: list.splits)

lemma multi_pop_drained:
  "data b = [] \<Longrightarrow> shutdown_flag b \<Longrightarrow> multi_pop item b = Returns ((False, item), b, [])"
  by (simp add: multi_pop_def cv_wait_def)

lemma multi_pop_head:
  "data b = x # xs \<Longrightarrow>
   multi_pop item b
     = Returns ((True, x), b\<lparr>data := xs\<rparr>, buffer_line ''Removed'' x (length xs))"
  by (simp add: multi_pop_def cv_wait_def)

text \<open>
  Claim C2. In the dual-signal variant \<open>pop\<close> has not returned exactly in the states
  where the queue is empty and the shutdown flag is false. With the queue empty and the
  flag true it returns false and leaves the buffer and \<open>item\<close> as they were. With an
  item in the queue it returns true, \<open>item\<close> is the head and the queue is the rest.
  So a pop that returns, returns false exactly when the queue is empty and the flag is
  true.
\<close>

theorem multi_pop_cases:
  "(multi_pop item b = Waits \<longleftrightarrow> data b = [] \<and> \<not> shutdown_flag b)
   \<and> (data b = [] \<and> shutdown_flag b \<longrightarrow> multi_pop item b = Returns ((False, item), b, []))
   \<and> (data b = x # xs \<longrightarrow>
        multi_pop item b
          = Returns ((True, x), b\<lparr>data := xs\<rparr>, buffer_line ''Removed'' x (length xs)))
   \<and> (multi_pop item b = Returns ((ok, item'), b', out)
        \<longrightarrow> (\<not> ok \<longleftrightarrow> data b = [] \<and> shutdown_flag b))"
proof (intro conjI impI)
  show "(multi_pop item b = Waits) = (data b = [] \<and> \<not> shutdown_flag b)"
    by (rule multi_pop_waits)
next
  assume "data b = [] \<and> shutdown_flag b"
  then show "multi_pop item b = Returns ((False, item), b, [])"
    by (simp add: multi_pop_drained)
next
  assume "data b = x # xs"
  then show "multi_pop item b
      = Returns ((True, x), b\<lparr>data := xs\<rparr>, buffer_line ''Removed'' x (length xs))"
    by (rule multi_pop_head)
next
  assume r: "multi_pop item b = Returns ((ok, item'), b', out)"
  show "(\<not> ok) = (data b = [] \<and> shutdown_flag b)"
  proof (cases "data b")
    case Nil
    with r have "shutdown_flag b" using multi_pop_waits [of item b] by auto
    with Nil r show ?thesis by (simp add: multi_pop_drained)
  next
    case (Cons y ys)
    with r show ?thesis by (simp add: multi_pop_head)
  qed
qed

theorem multi_pop_cases_witness:
  "(data \<lparr>data = [], shutdown_flag = True\<rparr> = []
      \<and> shutdown_flag \<lparr>data = [], shutdown_flag = True\<rparr>)
   \<and> multi_pop ''old'' \<lparr>data = [], shutdown_flag = True\<rparr>
        = Returns ((False, ''old''), \<lparr>data = [], shutdown_flag = True\<rparr>, [])
   \<and> data \<lparr>data = [''a'', ''b''], shutdown_flag = False\<rparr> = ''a'' # [''b'']
   \<and> multi_pop ''old'' \<lparr>data = [''a'', ''b''], shutdown_flag = False\<rparr>
        = Returns ((True, ''a''), \<lparr>data = [''b''], shutdown_flag = False\<rparr>,
                   buffer_line ''Removed'' ''a'' 1)
   \<and> multi_pop ''old'' \<lparr>data = [], shutdown_flag = False\<rparr> = Waits"
  using multi_pop_cases
          [of "''old''" "\<lparr>data = [], shutdown_flag = True\<rparr>" "''a''" "[]"
              False "''old''" "\<lparr>data = [], shutdown_flag = True\<rparr>" "[]"]
        multi_pop_cases
          [of "''old''" "\<lparr>data = [''a'', ''b''], shutdown_flag = False\<rparr>" "''a''" "[''b'']"
              True "''a''" "\<lparr>data = [''b''], shutdown_flag = False\<rparr>"
              "buffer_line ''Removed'' ''a'' 1"]
        multi_pop_cases
          [of "''old''" "\<lparr>data = [], shutdown_flag = False\<rparr>" "''a''" "[]"
              False "''old''" "\<lparr>data = [], shutdown_flag = True\<rparr>" "[]"]
  by simp

subsection \<open>Pop and try_pop of the single-signal variant\<close>

text \<open>
  Claim C9. In the single-signal variant \<open>pop\<close> has not returned exactly in the states
  where the queue is empty, and a pop that returns, returns true with the head of the
  queue in \<open>item\<close> and the rest of the queue left: the last \<open>return false\<close> of the
  function is never taken.
\<close>

theorem single_pop_always_true:
  "(single_pop item b = Waits \<longleftrightarrow> data b = [])
   \<and> (single_pop item b = Returns ((ok, item'), b', out)
        \<longrightarrow> ok \<and> data b = item' # data b' \<and> b' = b\<lparr>data := tl (data b)\<rparr>)"
  by (auto simp: single_pop_def cv_wait_def split: list.splits)

theorem single_pop_always_true_witness:
  "single_pop ''old'' \<lparr>data = [''a'', ''b'']\<rparr>
     = Returns ((True, ''a''), \<lparr>data = [''b'']\<rparr>, buffer_line ''Removed'' ''a'' 1)
   \<and> data \<lparr>data = [''a'', ''b'']\<rparr> = ''a'' # data \<lparr>data = [''b'']\<rparr>"
  using single_pop_always_true
          [of "''old''" "\<lparr>data = [''a'', ''b'']\<rparr>" True "''a''" "\<lparr>data = [''b'']\<rparr>"
              "buffer_line ''Removed'' ''a'' 1"]
  by (simp add: single_pop_def cv_wait_def)

text \<open>
  Claim C6. In the single-signal variant \<open>try_pop\<close> never waits. On an empty queue it
  returns false and leaves the buffer and \<open>item\<close> as they were. On a queue with an
  item it returns true with the head in \<open>item\<close> and the rest of the queue left, which
  is the result and the state \<open>pop\<close> gives there (the line written says
  \<open>Removed (try)\<close> where that of \<open>pop\<close> says \<open>Removed\<close>).
\<close>

theorem single_try_pop_cases:
  "(data b = [] \<longrightarrow> single_try_pop item b = ((False, item), b, []))
   \<and> (data b = x # xs \<longrightarrow>
        single_try_pop item b
          = ((True, x), b\<lparr>data := xs\<rparr>, buffer_line ''Removed (try)'' x (length xs))
        \<and> single_pop item b
          = Returns ((True, x), b\<lparr>data := xs\<rparr>, buffer_line ''Removed'' x (length xs)))
   \<and> single_step (STryPop item) b \<noteq> Waits"
  by (auto simp: single_try_pop_def single_pop_def cv_wait_def split: list.splits)

theorem single_try_pop_cases_witness:
  "data \<lparr>data = []\<rparr> = []
   \<and> single_try_pop ''old'' \<lparr>data = []\<rparr> = ((False, ''old''), \<lparr>data = []\<rparr>, [])
   \<and> data \<lparr>data = [''a'', ''b'']\<rparr> = ''a'' # [''b'']
   \<and> single_try_pop ''old'' \<lparr>data = [''a'', ''b'']\<rparr>
        = ((True, ''a''), \<lparr>data = [''b'']\<rparr>, buffer_line ''Removed (try)'' ''a'' 1)
   \<and> single_pop ''old'' \<lparr>data = [''a'', ''b'']\<rparr>
        = Returns ((True, ''a''), \<lparr>data = [''b'']\<rparr>, buffer_line ''Removed'' ''a'' 1)"
  using single_try_pop_cases [of "\<lparr>data = []\<rparr>" "''old''" "''a''" "[]"]
        single_try_pop_cases [of "\<lparr>data = [''a'', ''b'']\<rparr>" "''old''" "''a''" "[''b'']"]
  by simp

subsection \<open>The capacity bound\<close>

lemma single_step_bound:
  "length (data b) \<le> MAX_SIZE \<Longrightarrow> single_step c b = Returns (r, b', out)
   \<Longrightarrow> length (data b') \<le> MAX_SIZE"
  by (cases c)
     (auto simp: single_push_def single_pop_def single_try_pop_def cv_wait_def
           split: if_splits list.splits)

lemma multi_step_bound:
  "length (data b) \<le> MAX_SIZE \<Longrightarrow> multi_step c b = Returns (r, b', out)
   \<Longrightarrow> length (data b') \<le> MAX_SIZE"
  by (cases c)
     (auto simp: multi_push_def multi_pop_def multi_shutdown_def cv_wait_def
           split: if_splits list.splits)

lemma single_exec_bound:
  "length (data b) \<le> MAX_SIZE \<Longrightarrow> single_exec cs b = Returns (rs, b')
   \<Longrightarrow> length (data b') \<le> MAX_SIZE"
proof (induction cs arbitrary: b rs)
  case Nil
  then show ?case by simp
next
  case (Cons c cs)
  from Cons.prems(2) obtain r b1 o1 rs1 where
    s: "single_step c b = Returns (r, b1, o1)" and
    e: "single_exec cs b1 = Returns (rs1, b')"
    by (auto split: outcome.splits)
  from Cons.prems(1) s have "length (data b1) \<le> MAX_SIZE" by (rule single_step_bound)
  then show ?case using e by (rule Cons.IH)
qed

lemma multi_exec_bound:
  "length (data b) \<le> MAX_SIZE \<Longrightarrow> multi_exec cs b = Returns (rs, b')
   \<Longrightarrow> length (data b') \<le> MAX_SIZE"
proof (induction cs arbitrary: b rs)
  case Nil
  then show ?case by simp
next
  case (Cons c cs)
  from Cons.prems(2) obtain r b1 o1 rs1 where
    s: "multi_step c b = Returns (r, b1, o1)" and
    e: "multi_exec cs b1 = Returns (rs1, b')"
    by (auto split: outcome.splits)
  from Cons.prems(1) s have "length (data b1) \<le> MAX_SIZE" by (rule multi_step_bound)
  then show ?case using e by (rule Cons.IH)
qed

text \<open>
  Claim C4. In both variants the queue never holds more than \<open>MAX_SIZE = 10\<close> items
  (and, its length being a \<open>size_t\<close>, never fewer than 0): a call of any member
  function that starts with at most \<open>MAX_SIZE\<close> items leaves at most \<open>MAX_SIZE\<close>, and
  so does every sequence of calls on a freshly constructed buffer.
\<close>

theorem capacity_invariant:
  "(single_size sb \<le> MAX_SIZE \<and> single_step sc sb = Returns (sr, sb', sout)
      \<longrightarrow> single_size sb' \<le> MAX_SIZE)
   \<and> (single_exec scs single_init = Returns (srs, sb1)
      \<longrightarrow> 0 \<le> single_size sb1 \<and> single_size sb1 \<le> MAX_SIZE)
   \<and> (multi_size mb \<le> MAX_SIZE \<and> multi_step mc mb = Returns (mr, mb', mout)
      \<longrightarrow> multi_size mb' \<le> MAX_SIZE)
   \<and> (multi_exec mcs multi_init = Returns (mrs, mb1)
      \<longrightarrow> 0 \<le> multi_size mb1 \<and> multi_size mb1 \<le> MAX_SIZE)"
proof (intro conjI impI)
  assume "single_size sb \<le> MAX_SIZE \<and> single_step sc sb = Returns (sr, sb', sout)"
  then show "single_size sb' \<le> MAX_SIZE"
    unfolding single_size_def by (blast intro: single_step_bound)
next
  assume "multi_size mb \<le> MAX_SIZE \<and> multi_step mc mb = Returns (mr, mb', mout)"
  then show "multi_size mb' \<le> MAX_SIZE"
    unfolding multi_size_def by (blast intro: multi_step_bound)
next
  assume e: "single_exec scs single_init = Returns (srs, sb1)"
  have "length (data single_init) \<le> MAX_SIZE" by (simp add: single_init_def)
  then show "single_size sb1 \<le> MAX_SIZE"
    unfolding single_size_def using e by (rule single_exec_bound)
next
  assume e: "multi_exec mcs multi_init = Returns (mrs, mb1)"
  have "length (data multi_init) \<le> MAX_SIZE" by (simp add: multi_init_def)
  then show "multi_size mb1 \<le> MAX_SIZE"
    unfolding multi_size_def using e by (rule multi_exec_bound)
qed simp_all

theorem capacity_invariant_witness:
  "single_size \<lparr>data = [''a'', ''b'', ''c'', ''d'', ''e'', ''f'', ''g'', ''h'', ''i'']\<rparr> \<le> MAX_SIZE
   \<and> single_step (SPush ''j'') \<lparr>data = [''a'', ''b'', ''c'', ''d'', ''e'', ''f'', ''g'', ''h'', ''i'']\<rparr>
       = Returns (Void, \<lparr>data = [''a'', ''b'', ''c'', ''d'', ''e'', ''f'', ''g'', ''h'', ''i'', ''j'']\<rparr>,
                  buffer_line ''Added'' ''j'' 10)
   \<and> single_size \<lparr>data = [''a'', ''b'', ''c'', ''d'', ''e'', ''f'', ''g'', ''h'', ''i'', ''j'']\<rparr> \<le> MAX_SIZE
   \<and> single_exec [SPush ''a'', SPush ''b'', STryPop []] single_init
       = Returns ([Void, Void, Got True ''a''], \<lparr>data = [''b'']\<rparr>)
   \<and> single_size \<lparr>data = [''b'']\<rparr> \<le> MAX_SIZE
   \<and> multi_size \<lparr>data = [''a'', ''b'', ''c'', ''d'', ''e'', ''f'', ''g'', ''h'', ''i''], shutdown_flag = False\<rparr> \<le> MAX_SIZE
   \<and> multi_step (MPush ''j'') \<lparr>data = [''a'', ''b'', ''c'', ''d'', ''e'', ''f'', ''g'', ''h'', ''i''], shutdown_flag = False\<rparr>
       = Returns (Void, \<lparr>data = [''a'', ''b'', ''c'', ''d'', ''e'', ''f'', ''g'', ''h'', ''i'', ''j''], shutdown_flag = False\<rparr>,
                  buffer_line ''Added'' ''j'' 10)
   \<and> multi_size \<lparr>data = [''a'', ''b'', ''c'', ''d'', ''e'', ''f'', ''g'', ''h'', ''i'', ''j''], shutdown_flag = False\<rparr> \<le> MAX_SIZE
   \<and> multi_exec [MPush ''a'', MPush ''b'', MPop [], MShutdown] multi_init
       = Returns ([Void, Void, Got True ''a'', Void], \<lparr>data = [''b''], shutdown_flag = True\<rparr>)
   \<and> multi_size \<lparr>data = [''b''], shutdown_flag = True\<rparr> \<le> MAX_SIZE"
  using capacity_invariant
    [of "\<lparr>data = [''a'', ''b'', ''c'', ''d'', ''e'', ''f'', ''g'', ''h'', ''i'']\<rparr>"
        "SPush ''j''" Void
        "\<lparr>data = [''a'', ''b'', ''c'', ''d'', ''e'', ''f'', ''g'', ''h'', ''i'', ''j'']\<rparr>"
        "buffer_line ''Added'' ''j'' 10"
        "[SPush ''a'', SPush ''b'', STryPop []]" "[Void, Void, Got True ''a'']" "\<lparr>data = [''b'']\<rparr>"
        "\<lparr>data = [''a'', ''b'', ''c'', ''d'', ''e'', ''f'', ''g'', ''h'', ''i''], shutdown_flag = False\<rparr>"
        "MPush ''j''" Void
        "\<lparr>data = [''a'', ''b'', ''c'', ''d'', ''e'', ''f'', ''g'', ''h'', ''i'', ''j''], shutdown_flag = False\<rparr>"
        "buffer_line ''Added'' ''j'' 10"
        "[MPush ''a'', MPush ''b'', MPop [], MShutdown]" "[Void, Void, Got True ''a'', Void]"
        "\<lparr>data = [''b''], shutdown_flag = True\<rparr>"]
  by (simp add: single_push_def single_try_pop_def single_init_def single_size_def
        multi_push_def multi_pop_def multi_shutdown_def multi_init_def multi_size_def
        cv_wait_def MAX_SIZE_def eval_nat_numeral)

subsection \<open>First in, first out\<close>

lemma single_step_fifo:
  "single_step c b = Returns (r, b', out)
   \<Longrightarrow> data b @ single_pushed [c] = popped [r] @ data b'"
  by (cases c)
     (auto simp: single_push_def single_pop_def single_try_pop_def cv_wait_def
           split: if_splits list.splits)

lemma single_pushed_Cons: "single_pushed (c # cs) = single_pushed [c] @ single_pushed cs"
  by (cases c) simp_all

lemma popped_Cons: "popped (r # rs) = popped [r] @ popped rs"
proof (cases r)
  case (Got ok item)
  then show ?thesis by (cases ok) simp_all
qed simp_all

lemma single_exec_fifo:
  "single_exec cs b = Returns (rs, b')
   \<Longrightarrow> data b @ single_pushed cs = popped rs @ data b'"
proof (induction cs arbitrary: b rs)
  case Nil
  then show ?case by simp
next
  case (Cons c cs)
  from Cons.prems obtain r b1 o1 rs1 where
    s: "single_step c b = Returns (r, b1, o1)" and
    e: "single_exec cs b1 = Returns (rs1, b')" and
    rs: "rs = r # rs1"
    by (auto split: outcome.splits)
  have "data b @ single_pushed (c # cs) = (data b @ single_pushed [c]) @ single_pushed cs"
    by (simp add: single_pushed_Cons [of c cs])
  also have "\<dots> = popped [r] @ (data b1 @ single_pushed cs)"
    by (simp add: single_step_fifo [OF s])
  also have "\<dots> = popped [r] @ popped rs1 @ data b'"
    by (simp add: Cons.IH [OF e])
  also have "\<dots> = popped rs @ data b'"
    by (simp add: rs popped_Cons [of r rs1])
  finally show ?case .
qed

lemma multi_step_fifo:
  "\<not> shutdown_flag b \<Longrightarrow> c \<noteq> MShutdown \<Longrightarrow> multi_step c b = Returns (r, b', out)
   \<Longrightarrow> data b @ multi_pushed [c] = popped [r] @ data b' \<and> \<not> shutdown_flag b'"
  by (cases c)
     (auto simp: multi_push_def multi_pop_def cv_wait_def
           split: if_splits list.splits)

lemma multi_pushed_Cons: "multi_pushed (c # cs) = multi_pushed [c] @ multi_pushed cs"
  by (cases c) simp_all

lemma multi_exec_fifo:
  "\<not> shutdown_flag b \<Longrightarrow> MShutdown \<notin> set cs \<Longrightarrow> multi_exec cs b = Returns (rs, b')
   \<Longrightarrow> data b @ multi_pushed cs = popped rs @ data b'"
proof (induction cs arbitrary: b rs)
  case Nil
  then show ?case by simp
next
  case (Cons c cs)
  from Cons.prems(3) obtain r b1 o1 rs1 where
    s: "multi_step c b = Returns (r, b1, o1)" and
    e: "multi_exec cs b1 = Returns (rs1, b')" and
    rs: "rs = r # rs1"
    by (auto split: outcome.splits)
  from Cons.prems(2) have c: "c \<noteq> MShutdown" and cs: "MShutdown \<notin> set cs" by auto
  from multi_step_fifo [OF Cons.prems(1) c s]
  have st: "data b @ multi_pushed [c] = popped [r] @ data b1" and f: "\<not> shutdown_flag b1"
    by simp_all
  have "data b @ multi_pushed (c # cs) = (data b @ multi_pushed [c]) @ multi_pushed cs"
    by (simp add: multi_pushed_Cons [of c cs])
  also have "\<dots> = popped [r] @ (data b1 @ multi_pushed cs)"
    by (simp add: st)
  also have "\<dots> = popped [r] @ popped rs1 @ data b'"
    by (simp add: Cons.IH [OF f cs e])
  also have "\<dots> = popped rs @ data b'"
    by (simp add: rs popped_Cons [of r rs1])
  finally show ?case .
qed

lemma single_step_pops:
  "single_step c b = Returns (r, b', out) \<Longrightarrow> single_pops [c] \<le> length (popped [r])"
  by (cases c) (auto simp: single_pop_def cv_wait_def split: if_splits list.splits)

lemma single_pops_Cons: "single_pops (c # cs) = single_pops [c] + single_pops cs"
  by (cases c) simp_all

lemma single_exec_pops:
  "single_exec cs b = Returns (rs, b') \<Longrightarrow> single_pops cs \<le> length (popped rs)"
proof (induction cs arbitrary: b rs)
  case Nil
  then show ?case by simp
next
  case (Cons c cs)
  from Cons.prems obtain r b1 o1 rs1 where
    s: "single_step c b = Returns (r, b1, o1)" and
    e: "single_exec cs b1 = Returns (rs1, b')" and
    rs: "rs = r # rs1"
    by (auto split: outcome.splits)
  have "single_pops (c # cs) = single_pops [c] + single_pops cs"
    by (rule single_pops_Cons)
  also have "\<dots> \<le> length (popped [r]) + length (popped rs1)"
    using single_step_pops [OF s] Cons.IH [OF e] by simp
  also have "\<dots> = length (popped rs)"
    by (simp add: rs popped_Cons [of r rs1])
  finally show ?case .
qed

lemma multi_step_pops:
  "\<not> shutdown_flag b \<Longrightarrow> c \<noteq> MShutdown \<Longrightarrow> multi_step c b = Returns (r, b', out)
   \<Longrightarrow> multi_pops [c] \<le> length (popped [r]) \<and> \<not> shutdown_flag b'"
  by (cases c)
     (auto simp: multi_push_def multi_pop_def cv_wait_def split: if_splits list.splits)

lemma multi_pops_Cons: "multi_pops (c # cs) = multi_pops [c] + multi_pops cs"
  by (cases c) simp_all

lemma multi_exec_pops_count:
  "\<not> shutdown_flag b \<Longrightarrow> MShutdown \<notin> set cs \<Longrightarrow> multi_exec cs b = Returns (rs, b')
   \<Longrightarrow> multi_pops cs \<le> length (popped rs)"
proof (induction cs arbitrary: b rs)
  case Nil
  then show ?case by simp
next
  case (Cons c cs)
  from Cons.prems(3) obtain r b1 o1 rs1 where
    s: "multi_step c b = Returns (r, b1, o1)" and
    e: "multi_exec cs b1 = Returns (rs1, b')" and
    rs: "rs = r # rs1"
    by (auto split: outcome.splits)
  from Cons.prems(2) have c: "c \<noteq> MShutdown" and cs: "MShutdown \<notin> set cs" by auto
  from multi_step_pops [OF Cons.prems(1) c s]
  have st: "multi_pops [c] \<le> length (popped [r])" and f: "\<not> shutdown_flag b1"
    by simp_all
  have "multi_pops (c # cs) = multi_pops [c] + multi_pops cs"
    by (rule multi_pops_Cons)
  also have "\<dots> \<le> length (popped [r]) + length (popped rs1)"
    using st Cons.IH [OF f cs e] by simp
  also have "\<dots> = length (popped rs)"
    by (simp add: rs popped_Cons [of r rs1])
  finally show ?case .
qed

lemma single_exec_turns:
  "single_exec (concat (map (\<lambda>x. [SPush x, SPop item]) xs)) single_init
     = Returns (concat (map (\<lambda>x. [Void, Got True x]) xs), single_init)"
  by (induction xs)
     (simp_all add: single_push_def single_pop_def single_init_def cv_wait_def MAX_SIZE_def)

lemma multi_exec_turns:
  "multi_exec (concat (map (\<lambda>x. [MPush x, MPop item]) xs)) multi_init
     = Returns (concat (map (\<lambda>x. [Void, Got True x]) xs), multi_init)"
  by (induction xs)
     (simp_all add: multi_push_def multi_pop_def multi_init_def cv_wait_def MAX_SIZE_def)

lemma full_delivery:
  fixes pushed got rest :: "string list"
  assumes "pushed = got @ rest" and "n \<le> length got" and "n = length pushed"
  shows "got = pushed \<and> rest = []"
proof -
  from assms have "length rest = 0" by simp
  with assms(1) show ?thesis by simp
qed

text \<open>
  Claim C5. For every sequence of calls on a freshly constructed buffer (in the
  dual-signal variant: with no \<open>shutdown\<close> among them) in which every call returned, the
  items passed to \<open>push\<close>, in order, are the items the successful pops returned, in
  order, followed by the items still in the queue. When the sequence has as many calls
  of \<open>pop\<close> as of \<open>push\<close>, every pop delivered: the items popped are the items pushed,
  in the same order and each once, and the queue is empty. Such sequences exist for
  every list of items: pushing and popping the items one at a time, every call returns
  and the pops return the items in order.
\<close>

theorem fifo_no_loss_no_duplication:
  "(single_exec scs single_init = Returns (srs, sb)
      \<longrightarrow> single_pushed scs = popped srs @ data sb)
   \<and> (single_exec scs single_init = Returns (srs, sb)
        \<and> single_pops scs = length (single_pushed scs)
      \<longrightarrow> popped srs = single_pushed scs \<and> data sb = [])
   \<and> single_exec (concat (map (\<lambda>x. [SPush x, SPop item]) xs)) single_init
        = Returns (concat (map (\<lambda>x. [Void, Got True x]) xs), single_init)
   \<and> (MShutdown \<notin> set mcs \<and> multi_exec mcs multi_init = Returns (mrs, mb)
      \<longrightarrow> multi_pushed mcs = popped mrs @ data mb)
   \<and> (MShutdown \<notin> set mcs \<and> multi_exec mcs multi_init = Returns (mrs, mb)
        \<and> multi_pops mcs = length (multi_pushed mcs)
      \<longrightarrow> popped mrs = multi_pushed mcs \<and> data mb = [])
   \<and> multi_exec (concat (map (\<lambda>x. [MPush x, MPop item]) xs)) multi_init
        = Returns (concat (map (\<lambda>x. [Void, Got True x]) xs), multi_init)"
proof -
  have s1: "single_pushed scs = popped srs @ data sb"
    if e: "single_exec scs single_init = Returns (srs, sb)"
    using single_exec_fifo [OF e] by (simp add: single_init_def)
  have s2: "popped srs = single_pushed scs \<and> data sb = []"
    if e: "single_exec scs single_init = Returns (srs, sb)"
      and n: "single_pops scs = length (single_pushed scs)"
    using s1 [OF e] single_exec_pops [OF e] n by (rule full_delivery)
  have f: "\<not> shutdown_flag multi_init" by (simp add: multi_init_def)
  have m1: "multi_pushed mcs = popped mrs @ data mb"
    if c: "MShutdown \<notin> set mcs" and e: "multi_exec mcs multi_init = Returns (mrs, mb)"
    using multi_exec_fifo [OF f c e] by (simp add: multi_init_def)
  have m2: "popped mrs = multi_pushed mcs \<and> data mb = []"
    if c: "MShutdown \<notin> set mcs" and e: "multi_exec mcs multi_init = Returns (mrs, mb)"
      and n: "multi_pops mcs = length (multi_pushed mcs)"
    using m1 [OF c e] multi_exec_pops_count [OF f c e] n by (rule full_delivery)
  show ?thesis
    using s1 s2 m1 m2 single_exec_turns [of item xs] multi_exec_turns [of item xs]
    by blast
qed

theorem fifo_no_loss_no_duplication_witness:
  "single_exec [STryPop [], SPush ''a'', SPush ''b'', SPop [], SSize, SPush ''c'', SPop [], SPop []]
       single_init
     = Returns ([Got False [], Void, Void, Got True ''a'', Count 1, Void, Got True ''b'',
                 Got True ''c''], \<lparr>data = []\<rparr>)
   \<and> single_pops [STryPop [], SPush ''a'', SPush ''b'', SPop [], SSize, SPush ''c'', SPop [], SPop []]
     = length (single_pushed
         [STryPop [], SPush ''a'', SPush ''b'', SPop [], SSize, SPush ''c'', SPop [], SPop []])
   \<and> single_pushed [STryPop [], SPush ''a'', SPush ''b'', SPop [], SSize, SPush ''c'', SPop [], SPop []]
     = [''a'', ''b'', ''c'']
   \<and> popped [Got False [], Void, Void, Got True ''a'', Count 1, Void, Got True ''b'',
              Got True ''c'']
     = [''a'', ''b'', ''c'']
   \<and> MShutdown \<notin> set [MPush ''a'', MPush ''b'', MPop [], MEmpty, MPush ''c'', MPop [], MPop []]
   \<and> multi_exec [MPush ''a'', MPush ''b'', MPop [], MEmpty, MPush ''c'', MPop [], MPop []]
       multi_init
     = Returns ([Void, Void, Got True ''a'', Flag False, Void, Got True ''b'', Got True ''c''],
                \<lparr>data = [], shutdown_flag = False\<rparr>)
   \<and> multi_pops [MPush ''a'', MPush ''b'', MPop [], MEmpty, MPush ''c'', MPop [], MPop []]
     = length (multi_pushed
         [MPush ''a'', MPush ''b'', MPop [], MEmpty, MPush ''c'', MPop [], MPop []])
   \<and> multi_pushed [MPush ''a'', MPush ''b'', MPop [], MEmpty, MPush ''c'', MPop [], MPop []]
     = [''a'', ''b'', ''c'']
   \<and> popped [Void, Void, Got True ''a'', Flag False, Void, Got True ''b'', Got True ''c'']
     = [''a'', ''b'', ''c'']
   \<and> single_exec [SPush ''a'', SPop [], SPush ''b'', SPop []] single_init
     = Returns ([Void, Got True ''a'', Void, Got True ''b''], single_init)
   \<and> multi_exec [MPush ''a'', MPop [], MPush ''b'', MPop []] multi_init
     = Returns ([Void, Got True ''a'', Void, Got True ''b''], multi_init)"
  using fifo_no_loss_no_duplication
    [of "[STryPop [], SPush ''a'', SPush ''b'', SPop [], SSize, SPush ''c'', SPop [], SPop []]"
        "[Got False [], Void, Void, Got True ''a'', Count 1, Void, Got True ''b'', Got True ''c'']"
        "\<lparr>data = []\<rparr>" "[]" "[''a'', ''b'']"
        "[MPush ''a'', MPush ''b'', MPop [], MEmpty, MPush ''c'', MPop [], MPop []]"
        "[Void, Void, Got True ''a'', Flag False, Void, Got True ''b'', Got True ''c'']"
        "\<lparr>data = [], shutdown_flag = False\<rparr>"]
  by (simp add: single_push_def single_pop_def single_try_pop_def single_init_def
        single_size_def multi_push_def multi_pop_def multi_init_def multi_empty_def
        cv_wait_def MAX_SIZE_def)

subsection \<open>Draining after shutdown\<close>

lemma multi_exec_append:
  "multi_exec (cs @ ds) b =
     (case multi_exec cs b of
        Waits \<Rightarrow> Waits
      | Returns (rs, b') \<Rightarrow>
          (case multi_exec ds b' of
             Waits \<Rightarrow> Waits
           | Returns (rs', b'') \<Rightarrow> Returns (rs @ rs', b'')))"
  by (induction cs arbitrary: b) (auto split: outcome.splits)

lemma multi_exec_pushes:
  "length (data b) + length xs \<le> MAX_SIZE \<Longrightarrow> \<not> shutdown_flag b
   \<Longrightarrow> multi_exec (map MPush xs) b
        = Returns (map (\<lambda>x. Void) xs, b\<lparr>data := data b @ xs\<rparr>)"
proof (induction xs arbitrary: b)
  case Nil
  then show ?case by simp
next
  case (Cons x xs)
  let ?b1 = "b\<lparr>data := data b @ [x]\<rparr>"
  from Cons.prems have s: "multi_step (MPush x) b = Returns (Void, ?b1, buffer_line ''Added'' x (length (data ?b1)))"
    by (simp add: multi_push_def cv_wait_def)
  from Cons.prems have "length (data ?b1) + length xs \<le> MAX_SIZE" "\<not> shutdown_flag ?b1"
    by simp_all
  then have "multi_exec (map MPush xs) ?b1
        = Returns (map (\<lambda>x. Void) xs, ?b1\<lparr>data := data ?b1 @ xs\<rparr>)"
    by (rule Cons.IH)
  with s show ?case by simp
qed

lemma multi_exec_pops:
  "length ys = length xs \<Longrightarrow> data b = xs @ rest
   \<Longrightarrow> multi_exec (map MPop ys) b = Returns (map (Got True) xs, b\<lparr>data := rest\<rparr>)"
proof (induction ys xs arbitrary: b rule: list_induct2)
  case Nil
  then show ?case by simp
next
  case (Cons y ys x xs)
  let ?b1 = "b\<lparr>data := xs @ rest\<rparr>"
  from Cons.prems have "data b = x # (xs @ rest)" by simp
  then have s: "multi_step (MPop y) b
      = Returns (Got True x, ?b1, buffer_line ''Removed'' x (length (xs @ rest)))"
    by (simp add: multi_pop_def cv_wait_def)
  have "data ?b1 = xs @ rest" by simp
  then have "multi_exec (map MPop ys) ?b1 = Returns (map (Got True) xs, ?b1\<lparr>data := rest\<rparr>)"
    by (rule Cons.IH)
  with s show ?case by simp
qed

text \<open>
  Claim C3. In the dual-signal variant, pushing \<open>K < MAX_SIZE\<close> items on a freshly
  constructed buffer, then \<open>shutdown\<close>, then \<open>K + 1\<close> pops: every call returns, the first
  \<open>K\<close> pops return true with the pushed items in the order pushed, and the last pop
  returns false, leaving \<open>item\<close> as it was. In particular: push \<open>a\<close>, push \<open>b\<close>,
  \<open>shutdown\<close>, push \<open>c\<close> (size still 2), then three pops give \<open>a\<close>, \<open>b\<close> and false.
\<close>

theorem shutdown_drains:
  "(length xs < MAX_SIZE \<and> length ys = length xs
      \<longrightarrow> multi_exec (map MPush xs @ MShutdown # map MPop ys @ [MPop z]) multi_init
            = Returns (map (\<lambda>x. Void) xs @ Void # map (Got True) xs @ [Got False z],
                       \<lparr>data = [], shutdown_flag = True\<rparr>))
   \<and> multi_exec [MPush ''a'', MPush ''b'', MShutdown, MPush ''c'', MSize,
                  MPop i1, MPop i2, MPop i3] multi_init
       = Returns ([Void, Void, Void, Void, Count 2, Got True ''a'', Got True ''b'', Got False i3],
                  \<lparr>data = [], shutdown_flag = True\<rparr>)"
proof (intro conjI impI)
  assume a: "length xs < MAX_SIZE \<and> length ys = length xs"
  let ?b1 = "\<lparr>data = xs, shutdown_flag = False\<rparr>"
  let ?b2 = "\<lparr>data = xs, shutdown_flag = True\<rparr>"
  let ?b3 = "\<lparr>data = [], shutdown_flag = True\<rparr>"
  from a have "length (data multi_init) + length xs \<le> MAX_SIZE" "\<not> shutdown_flag multi_init"
    by (simp_all add: multi_init_def)
  then have "multi_exec (map MPush xs) multi_init
      = Returns (map (\<lambda>x. Void) xs, multi_init\<lparr>data := data multi_init @ xs\<rparr>)"
    by (rule multi_exec_pushes)
  then have pushes: "multi_exec (map MPush xs) multi_init = Returns (map (\<lambda>x. Void) xs, ?b1)"
    by (simp add: multi_init_def)
  have shut: "multi_step MShutdown ?b1 = Returns (Void, ?b2, [])"
    by (simp add: multi_shutdown_def)
  from a have "length ys = length xs" by simp
  moreover have "data ?b2 = xs @ []" by simp
  ultimately have "multi_exec (map MPop ys) ?b2 = Returns (map (Got True) xs, ?b2\<lparr>data := []\<rparr>)"
    by (rule multi_exec_pops)
  then have pops: "multi_exec (map MPop ys) ?b2 = Returns (map (Got True) xs, ?b3)"
    by simp
  have last: "multi_exec [MPop z] ?b3 = Returns ([Got False z], ?b3)"
    by (simp add: multi_pop_def cv_wait_def)
  have tail: "multi_exec (map MPop ys @ [MPop z]) ?b2
      = Returns (map (Got True) xs @ [Got False z], ?b3)"
    by (simp only: multi_exec_append [of "map MPop ys" "[MPop z]"] pops last
          outcome.case prod.case)
  have "multi_exec (MShutdown # map MPop ys @ [MPop z]) ?b1
      = Returns (Void # map (Got True) xs @ [Got False z], ?b3)"
    by (simp only: multi_exec.simps shut tail outcome.case prod.case)
  then show "multi_exec (map MPush xs @ MShutdown # map MPop ys @ [MPop z]) multi_init
      = Returns (map (\<lambda>x. Void) xs @ Void # map (Got True) xs @ [Got False z], ?b3)"
    by (simp add: multi_exec_append [of "map MPush xs"] pushes)
next
  show "multi_exec [MPush ''a'', MPush ''b'', MShutdown, MPush ''c'', MSize,
                  MPop i1, MPop i2, MPop i3] multi_init
       = Returns ([Void, Void, Void, Void, Count 2, Got True ''a'', Got True ''b'', Got False i3],
                  \<lparr>data = [], shutdown_flag = True\<rparr>)"
    by (simp add: multi_push_def multi_pop_def multi_shutdown_def multi_init_def multi_size_def
        cv_wait_def MAX_SIZE_def)
qed

theorem shutdown_drains_witness:
  "length [''a'', ''b''] < MAX_SIZE \<and> length [''x'', ''y''] = length [''a'', ''b'']
   \<and> multi_exec [MPush ''a'', MPush ''b'', MShutdown, MPop ''x'', MPop ''y'', MPop ''z''] multi_init
       = Returns ([Void, Void, Void, Got True ''a'', Got True ''b'', Got False ''z''],
                  \<lparr>data = [], shutdown_flag = True\<rparr>)"
  using shutdown_drains [of "[''a'', ''b'']" "[''x'', ''y'']" "''z''"]
  by (simp add: MAX_SIZE_def)

subsection \<open>Termination of the demo after shutdown\<close>

























end
